theory Spec2Isabelle
  imports Main
begin

section \<open>The CSV import worker (workers/csvProcessor.js)\<close>

text \<open>
  The worker receives the text of an uploaded table, parses it into records, resolves the
  reference entities of every record against the document store, inserts a Policy where
  the record allows it, and posts \<open>progress\<close>, \<open>done\<close> and \<open>error\<close> messages to its
  parent. The embedding follows \<open>processCSV\<close> statement by statement.

  What the worker takes from libraries is a parameter of the model (the record \<open>env\<close>):
  the date parser behind \<open>new Date(s)\<close>, the functions behind the \<open>trim: true\<close> and
  \<open>lowercase: true\<close> setters of the schemas, the CSV parser, and the schedule of storage
  failures (which storage call of the run is rejected, and with which message). The
  parser trims unquoted values only, so a value of a parsed record may still carry white
  space, or consist of nothing else; the setters of the schemas see it as it is.
\<close>

subsection \<open>Values\<close>

type_synonym oid = nat
  \<comment> \<open>an ObjectId: an object, so always truthy\<close>

type_synonym jsdate = int
  \<comment> \<open>a valid Date, as milliseconds since the epoch\<close>

text \<open>A parsed record: a field is \<open>None\<close> when the header has no such column.\<close>

record csv_record =
  agent :: "string option"
  category_name :: "string option"
  company_name :: "string option"
  firstname :: "string option"
  dob :: "string option"
  address :: "string option"
  phone :: "string option"
  state :: "string option"
  zip_f :: "string option"
  email :: "string option"
  gender :: "string option"
  userType :: "string option"
  account_name :: "string option"
  policy_start_date :: "string option"
  policy_end_date :: "string option"
  policy_number :: "string option"

text \<open>JavaScript truthiness of a field: \<open>undefined\<close> and the empty string are falsy.\<close>

fun truthy :: "string option \<Rightarrow> bool" where
  "truthy None = False"
| "truthy (Some s) = (s \<noteq> [])"

text \<open>\<open>v || ''\<close>\<close>

fun or_empty :: "string option \<Rightarrow> string" where
  "or_empty None = []"
| "or_empty (Some s) = s"

text \<open>\<open>v || 'N/A'\<close>\<close>

definition or_NA :: "string option \<Rightarrow> string" where
  "or_NA v = (if truthy v then or_empty v else ''N/A'')"

text \<open>A field inside a template literal: \<open>undefined\<close> prints as its name.\<close>

fun template :: "string option \<Rightarrow> string" where
  "template None = ''undefined''"
| "template (Some s) = s"

subsection \<open>The environment\<close>

record env =
  parse_date :: "string \<Rightarrow> jsdate option"
    \<comment> \<open>\<open>new Date(s)\<close>; \<open>None\<close> is the Invalid Date, whose \<open>getTime()\<close> is NaN\<close>
  trim :: "string \<Rightarrow> string"
    \<comment> \<open>\<open>String.prototype.trim\<close>, applied by the \<open>trim: true\<close> setter\<close>
  to_lower :: "string \<Rightarrow> string"
    \<comment> \<open>\<open>String.prototype.toLowerCase\<close>, applied by the \<open>lowercase: true\<close> setter\<close>
  csv_parse :: "string \<Rightarrow> string + csv_record list"
    \<comment> \<open>\<open>parse(csvData, {columns: true, skip_empty_lines: true, trim: true})\<close>;
        \<open>Inl\<close> is the message of the error it throws\<close>
  fault :: "nat \<Rightarrow> string option"
    \<comment> \<open>\<open>fault n = Some m\<close>: the \<open>n\<close>-th storage call of the run (from 0) is rejected
        with message \<open>m\<close>\<close>

subsection \<open>The document store\<close>

datatype ref_model = Agent | LOB | Carrier | UserAccount

record user_doc =
  u_firstname :: string
  u_dob :: jsdate
  u_address :: string
  u_phone :: string
  u_state :: string
  u_zip :: string
  u_email :: string
  u_gender :: string
  u_userType :: string

record policy_doc =
  p_policy_number :: string
  p_policy_start_date :: jsdate
  p_policy_end_date :: jsdate
  p_policy_category_id :: oid
  p_company_collection_id :: oid
  p_user_id :: oid

text \<open>
  Every collection is the list of its documents in insertion order, each with its
  \<open>_id\<close>. The four reference collections hold one name field each.
\<close>

record store =
  refs :: "ref_model \<Rightarrow> (oid \<times> string) list"
  users :: "(oid \<times> user_doc) list"
  policies :: "(oid \<times> policy_doc) list"
  next_oid :: oid

datatype store_op =
    Connect
  | FindRef ref_model string
  | CreateRef ref_model string
  | FindUser string string
  | CreateUser string string
  | FindPolicy string
  | CreatePolicy string

text \<open>
  The state the resolvers work on: the store, the storage calls issued so far in this run
  (oldest first), and the five caches of the run.
\<close>

record resolver =
  db :: store
  calls :: "store_op list"
  cache :: "ref_model \<Rightarrow> string \<rightharpoonup> oid"
  userCache :: "string \<rightharpoonup> oid"

type_synonym 'a action = "resolver \<Rightarrow> (string + 'a) \<times> resolver"
  \<comment> \<open>an awaited call: \<open>Inl m\<close> is a thrown error with message \<open>m\<close>; the state
      changes made before the throw stay\<close>

definition returnE :: "'a \<Rightarrow> 'a action" where
  "returnE x = (\<lambda>r. (Inr x, r))"

definition bindE :: "'a action \<Rightarrow> ('a \<Rightarrow> 'b action) \<Rightarrow> 'b action" where
  "bindE m f = (\<lambda>r. case m r of (Inl e, r') \<Rightarrow> (Inl e, r') | (Inr x, r') \<Rightarrow> f x r')"

text \<open>
  One call to the store: it is logged, and it is rejected when the failure schedule says
  so; otherwise it runs on the store.
\<close>

definition storage_call :: "env \<Rightarrow> store_op \<Rightarrow> (store \<Rightarrow> 'a \<times> store) \<Rightarrow> 'a action" where
  "storage_call E op f =
     (\<lambda>r. let r' = r\<lparr>calls := calls r @ [op]\<rparr> in
        case fault E (length (calls r)) of
          Some m \<Rightarrow> (Inl m, r')
        | None \<Rightarrow> (case f (db r) of (a, d) \<Rightarrow> (Inr a, r'\<lparr>db := d\<rparr>)))"

text \<open>
  The schemas. models/UserAccount.js: \<open>account_name\<close> is \<open>required\<close> and has
  \<open>trim: true\<close>. models/User.js: \<open>firstname\<close> and \<open>dob\<close> are \<open>required\<close>, every string
  field has \<open>trim: true\<close>, and \<open>email\<close> has \<open>lowercase: true\<close> as well. A setter is
  applied to the value of its field in a document to be created and in a query; the
  \<open>required\<close> validator sees the value after the setters and rejects the empty string
  and \<open>null\<close>; validation runs before anything is sent to the store.

  Modelled from the spec: the schemas of Agent, LOB and Carrier (models/Agent.js,
  models/LOB.js, models/Carrier.js) are not among the sources; the spec gives each one
  name field, matched exactly, so the model gives them no setter and no validator.
\<close>

definition ref_setter :: "env \<Rightarrow> ref_model \<Rightarrow> string \<Rightarrow> string" where
  "ref_setter E M name = (if M = UserAccount then trim E name else name)"

definition ref_validation :: "env \<Rightarrow> ref_model \<Rightarrow> string \<Rightarrow> string option" where
  "ref_validation E M name =
     (if M = UserAccount \<and> trim E name = []
      then Some ''UserAccount validation failed: account_name: Path `account_name` is required.''
      else None)"

definition email_setter :: "env \<Rightarrow> string \<Rightarrow> string" where
  "email_setter E em = trim E (to_lower E em)"

text \<open>\<open>Model.findOne({<name field>: name})\<close> on a reference collection: the first match.\<close>

definition findOne_ref :: "env \<Rightarrow> ref_model \<Rightarrow> string \<Rightarrow> oid option action" where
  "findOne_ref E M name =
     storage_call E (FindRef M name)
       (\<lambda>d. (map_option fst (find (\<lambda>doc. snd doc = ref_setter E M name) (refs d M)), d))"

text \<open>\<open>Model.create({<name field>: name})\<close> on a reference collection.\<close>

definition create_ref :: "env \<Rightarrow> ref_model \<Rightarrow> string \<Rightarrow> oid action" where
  "create_ref E M name =
     (case ref_validation E M name of
        Some m \<Rightarrow> (\<lambda>r. (Inl m, r))
      | None \<Rightarrow>
          storage_call E (CreateRef M name)
            (\<lambda>d. (next_oid d,
                   d\<lparr>refs := (refs d)(M := refs d M @ [(next_oid d, ref_setter E M name)]),
                     next_oid := Suc (next_oid d)\<rparr>)))"

text \<open>\<open>User.findOne({firstname, email})\<close>: the first match.\<close>

definition User_findOne :: "env \<Rightarrow> string \<Rightarrow> string \<Rightarrow> oid option action" where
  "User_findOne E fn em =
     storage_call E (FindUser fn em)
       (\<lambda>d. (map_option fst
                (find (\<lambda>doc. u_firstname (snd doc) = trim E fn \<and>
                             u_email (snd doc) = email_setter E em)
                   (users d)), d))"

text \<open>\<open>User.create({...})\<close>: the message of the validation error, if there is one.\<close>

definition User_validation :: "env \<Rightarrow> string \<Rightarrow> jsdate option \<Rightarrow> string option" where
  "User_validation E fn d =
     (if trim E fn = [] \<and> d = None then
        Some ''User validation failed: firstname: Path `firstname` is required., dob: Path `dob` is required.''
      else if trim E fn = [] then
        Some ''User validation failed: firstname: Path `firstname` is required.''
      else if d = None then Some ''User validation failed: dob: Path `dob` is required.''
      else None)"

definition User_create ::
  "env \<Rightarrow> string \<Rightarrow> jsdate option \<Rightarrow> string \<Rightarrow> string \<Rightarrow> string \<Rightarrow> string \<Rightarrow> string \<Rightarrow> string
     \<Rightarrow> string \<Rightarrow> oid action" where
  "User_create E fn d addr ph st zp em gen ut =
     (case User_validation E fn d of
        Some m \<Rightarrow> (\<lambda>r. (Inl m, r))
      | None \<Rightarrow>
          storage_call E (CreateUser fn em)
            (\<lambda>s. (next_oid s,
                   s\<lparr>users := users s @
                        [(next_oid s,
                          \<lparr>u_firstname = trim E fn, u_dob = the d, u_address = trim E addr,
                           u_phone = trim E ph, u_state = trim E st, u_zip = trim E zp,
                           u_email = email_setter E em, u_gender = trim E gen,
                           u_userType = trim E ut\<rparr>)],
                     next_oid := Suc (next_oid s)\<rparr>)))"

text \<open>
  \<open>Policy.findOne({policy_number})\<close> and \<open>Policy.create({...})\<close>.

  Modelled from the spec: the schema of Policy (models/Policy.js) is not among the
  sources; the spec gives it the six fields the worker passes, with the policy number
  matched exactly.
\<close>

definition Policy_findOne :: "env \<Rightarrow> string \<Rightarrow> oid option action" where
  "Policy_findOne E pn =
     storage_call E (FindPolicy pn)
       (\<lambda>d. (map_option fst (find (\<lambda>doc. p_policy_number (snd doc) = pn) (policies d)), d))"

definition Policy_create :: "env \<Rightarrow> policy_doc \<Rightarrow> oid action" where
  "Policy_create E p =
     storage_call E (CreatePolicy (p_policy_number p))
       (\<lambda>d. (next_oid d,
              d\<lparr>policies := policies d @ [(next_oid d, p)], next_oid := Suc (next_oid d)\<rparr>))"

subsection \<open>The resolvers\<close>

text \<open>
  \<open>getOrCreateAgent\<close>, \<open>getOrCreateLOB\<close>, \<open>getOrCreateCarrier\<close> and
  \<open>getOrCreateUserAccount\<close> are the same function up to the model and the cache they
  use.
\<close>

definition cache_set :: "ref_model \<Rightarrow> string \<Rightarrow> oid \<Rightarrow> resolver \<Rightarrow> resolver" where
  "cache_set M name i r = r\<lparr>cache := (cache r)(M := (cache r M)(name \<mapsto> i))\<rparr>"

definition getOrCreateRef :: "env \<Rightarrow> ref_model \<Rightarrow> string option \<Rightarrow> oid option action" where
  "getOrCreateRef E M label =
     (\<lambda>r. if \<not> truthy label then (Inr None, r)
          else case cache r M (or_empty label) of
            Some i \<Rightarrow> (Inr (Some i), r)
          | None \<Rightarrow>
              bindE (findOne_ref E M (or_empty label))
                (\<lambda>found.
                   bindE (case found of
                            None \<Rightarrow> create_ref E M (or_empty label)
                          | Some i \<Rightarrow> returnE i)
                     (\<lambda>i r'. (Inr (Some i), cache_set M (or_empty label) i r'))) r)"

definition getOrCreateAgent :: "env \<Rightarrow> string option \<Rightarrow> oid option action" where
  "getOrCreateAgent E agentName = getOrCreateRef E Agent agentName"

definition getOrCreateLOB :: "env \<Rightarrow> string option \<Rightarrow> oid option action" where
  "getOrCreateLOB E categoryName = getOrCreateRef E LOB categoryName"

definition getOrCreateCarrier :: "env \<Rightarrow> string option \<Rightarrow> oid option action" where
  "getOrCreateCarrier E companyName = getOrCreateRef E Carrier companyName"

definition getOrCreateUserAccount :: "env \<Rightarrow> string option \<Rightarrow> oid option action" where
  "getOrCreateUserAccount E accountName = getOrCreateRef E UserAccount accountName"

text \<open>A date field: \<open>null\<close> when the field is falsy or parses to the Invalid Date.\<close>

definition parse_field :: "env \<Rightarrow> string option \<Rightarrow> jsdate option" where
  "parse_field E v = (if truthy v then parse_date E (or_empty v) else None)"

definition userKey :: "csv_record \<Rightarrow> string" where
  "userKey userData =
     template (firstname userData) @ ''_'' @ template (email userData) @ ''_'' @
     template (dob userData)"

text \<open>
  \<open>getOrCreateUser\<close>. The object the worker passes holds the nine person fields of the
  record unchanged, so the model passes the record.
\<close>

definition getOrCreateUser :: "env \<Rightarrow> csv_record \<Rightarrow> oid option action" where
  "getOrCreateUser E userData =
     (\<lambda>r. case userCache r (userKey userData) of
            Some i \<Rightarrow> (Inr (Some i), r)
          | None \<Rightarrow>
              bindE (if truthy (firstname userData) \<and> truthy (email userData)
                     then User_findOne E (or_empty (firstname userData)) (or_empty (email userData))
                     else returnE None)
                (\<lambda>user.
                   bindE (case user of
                            None \<Rightarrow>
                              User_create E (or_empty (firstname userData))
                                (parse_field E (dob userData))
                                (or_empty (address userData)) (or_empty (phone userData))
                                (or_empty (state userData)) (or_empty (zip_f userData))
                                (or_empty (email userData)) (or_empty (gender userData))
                                (or_empty (userType userData))
                          | Some i \<Rightarrow> returnE i)
                     (\<lambda>i r'. (Inr (Some i),
                               r'\<lparr>userCache := (userCache r')(userKey userData \<mapsto> i)\<rparr>))) r)"

subsection \<open>One record\<close>

text \<open>The condition under which the worker looks for, and then creates, the Policy.\<close>

definition policy_wanted ::
  "csv_record \<Rightarrow> oid option \<Rightarrow> oid option \<Rightarrow> oid option \<Rightarrow> jsdate option \<Rightarrow> jsdate option \<Rightarrow> bool" where
  "policy_wanted record lobId carrierId userId startDate endDate =
     (truthy (policy_number record) \<and> lobId \<noteq> None \<and> carrierId \<noteq> None \<and> userId \<noteq> None \<and>
      startDate \<noteq> None \<and> endDate \<noteq> None)"

text \<open>
  The last statement of the \<open>try\<close> before the counters: the Policy is looked up and
  created when the record asks for one and none with its number exists.
\<close>

definition policy_step ::
  "env \<Rightarrow> csv_record \<Rightarrow> oid option \<Rightarrow> oid option \<Rightarrow> oid option \<Rightarrow> unit action" where
  "policy_step E record lobId carrierId userId =
     (let startDate = parse_field E (policy_start_date record);
          endDate = parse_field E (policy_end_date record)
      in if policy_wanted record lobId carrierId userId startDate endDate then
           bindE (Policy_findOne E (or_empty (policy_number record))) (\<lambda>existingPolicy.
             if existingPolicy = None then
               bindE (Policy_create E
                        \<lparr>p_policy_number = or_empty (policy_number record),
                         p_policy_start_date = the startDate,
                         p_policy_end_date = the endDate,
                         p_policy_category_id = the lobId,
                         p_company_collection_id = the carrierId,
                         p_user_id = the userId\<rparr>)
                 (\<lambda>_. returnE ())
             else returnE ())
         else returnE ())"

text \<open>The body of the \<open>try\<close> up to and including the creation of the Policy.\<close>

definition resolve_record :: "env \<Rightarrow> csv_record \<Rightarrow> unit action" where
  "resolve_record E record =
     bindE (getOrCreateAgent E (agent record)) (\<lambda>agentId.
     bindE (getOrCreateLOB E (category_name record)) (\<lambda>lobId.
     bindE (getOrCreateCarrier E (company_name record)) (\<lambda>carrierId.
     bindE (getOrCreateUser E record) (\<lambda>userId.
     bindE (getOrCreateUserAccount E (account_name record)) (\<lambda>_.
       policy_step E record lobId carrierId userId)))))"

subsection \<open>The run\<close>

record error_entry =
  e_row :: int
  e_error :: string
  e_record :: string

datatype message =
    Progress nat nat
      \<comment> \<open>processed, total\<close>
  | Done bool nat nat nat "error_entry list"
      \<comment> \<open>success, processed, errors, total, errorsList\<close>
  | Error string

record run =
  res :: resolver
  processed :: nat
  errors :: nat
  errorsList :: "error_entry list"
  posted :: "message list"
    \<comment> \<open>the messages given to \<open>parentPort.postMessage\<close> so far, oldest first\<close>

text \<open>
  One iteration of the inner loop: the \<open>try\<close> body, then either the counter and the
  progress message, or the \<open>catch\<close>. \<open>rowno\<close> is \<open>i + batch.indexOf(record) + 1\<close>.
\<close>

definition process_record :: "env \<Rightarrow> nat \<Rightarrow> int \<Rightarrow> csv_record \<Rightarrow> run \<Rightarrow> run" where
  "process_record E tot rowno record s =
     (case resolve_record E record (res s) of
        (Inr _, r') \<Rightarrow>
          let p = processed s + 1 in
            s\<lparr>res := r', processed := p,
              posted := (if p mod 50 = 0 then posted s @ [Progress p tot] else posted s)\<rparr>
      | (Inl m, r') \<Rightarrow>
          s\<lparr>res := r', errors := errors s + 1,
            errorsList := errorsList s @
              [\<lparr>e_row = rowno, e_error = m, e_record = or_NA (policy_number record)\<rparr>]\<rparr>)"

text \<open>
  The parsed records are objects: \<open>batch.indexOf(record)\<close> compares references, not
  contents. A record object is modelled as its reference paired with its contents; the
  parser returns distinct objects, numbered here in input order.
\<close>

type_synonym record_obj = "nat \<times> csv_record"

definition objects :: "csv_record list \<Rightarrow> record_obj list" where
  "objects rows = zip [0..<length rows] rows"

fun indexOf :: "record_obj list \<Rightarrow> record_obj \<Rightarrow> int" where
  "indexOf [] x = - 1"
| "indexOf (y # ys) x =
     (if fst y = fst x then 0
      else (let k = indexOf ys x in if k < 0 then - 1 else k + 1))"

definition slice :: "'a list \<Rightarrow> nat \<Rightarrow> nat \<Rightarrow> 'a list" where
  "slice xs a b = take (b - a) (drop a xs)"

definition process_batch :: "env \<Rightarrow> nat \<Rightarrow> nat \<Rightarrow> record_obj list \<Rightarrow> run \<Rightarrow> run" where
  "process_batch E tot i batch s =
     fold (\<lambda>record. process_record E tot (int i + indexOf batch record + 1) (snd record))
       batch s"

text \<open>
  The outer loop, for any positive batch size. (With batch size 0 the loop of the source
  never advances; the recursion below stops instead, and no theorem uses that case.)
\<close>

function batch_loop :: "env \<Rightarrow> nat \<Rightarrow> record_obj list \<Rightarrow> nat \<Rightarrow> run \<Rightarrow> run" where
  "batch_loop E b records i s =
     (if i < length records \<and> 0 < b
      then batch_loop E b records (i + b)
             (process_batch E (length records) i (slice records i (i + b)) s)
      else s)"
  by pat_completeness auto
termination
  by (relation "measure (\<lambda>(E, b, records, i, s). length records - i)") auto

declare batch_loop.simps [simp del]

definition batchSize :: nat where
  "batchSize = 100"

definition init_run :: "store \<Rightarrow> run" where
  "init_run st =
     \<lparr>res = \<lparr>db = st, calls = [Connect], cache = (\<lambda>M. Map.empty), userCache = Map.empty\<rparr>,
      processed = 0, errors = 0, errorsList = [], posted = []\<rparr>"

text \<open>
  \<open>processCSV\<close> with the batch size as a parameter: the messages posted, in order, and
  the store it leaves. \<open>mongoose.connect\<close> is storage call 0 of the run and
  \<open>mongoose.connection.close\<close> the last one.
\<close>

definition processCSV_with :: "env \<Rightarrow> nat \<Rightarrow> string \<Rightarrow> store \<Rightarrow> message list \<times> store" where
  "processCSV_with E b csvData st =
     (case fault E 0 of
        Some m \<Rightarrow> ([Error m], st)
      | None \<Rightarrow>
          (case csv_parse E csvData of
             Inl m \<Rightarrow> ([Error m], st)
           | Inr rows \<Rightarrow>
               let s = batch_loop E b (objects rows) 0 (init_run st) in
                 (case fault E (length (calls (res s))) of
                    Some m \<Rightarrow> (posted s @ [Error m], db (res s))
                  | None \<Rightarrow>
                      (posted s @
                         [Done True (processed s) (errors s) (length rows)
                            (take 10 (errorsList s))],
                       db (res s)))))"

definition processCSV :: "env \<Rightarrow> string \<Rightarrow> store \<Rightarrow> message list \<times> store" where
  "processCSV E csvData st = processCSV_with E batchSize csvData st"

text \<open>
  The entry of the worker: \<open>if (workerData && workerData.csvData) processCSV(...)\<close>.
  \<open>None\<close> stands for absent worker data or an absent \<open>csvData\<close>.
\<close>

definition worker_main :: "env \<Rightarrow> string option \<Rightarrow> store \<Rightarrow> message list \<times> store" where
  "worker_main E csvData st =
     (if truthy csvData then processCSV E (or_empty csvData) st else ([], st))"

subsection \<open>Notions used by the properties\<close>

fun is_progress :: "message \<Rightarrow> bool" where
  "is_progress (Progress p t) = True"
| "is_progress _ = False"

fun is_terminal :: "message \<Rightarrow> bool" where
  "is_terminal (Progress p t) = False"
| "is_terminal _ = True"

fun progress_count :: "message \<Rightarrow> nat" where
  "progress_count (Progress p t) = p"
| "progress_count _ = 0"

text \<open>The progress messages for the multiples of 50 up to \<open>p\<close>, in order.\<close>

definition progress_upto :: "nat \<Rightarrow> nat \<Rightarrow> message list" where
  "progress_upto p n = map (\<lambda>j. Progress (50 * j) n) [1..<Suc (p div 50)]"

definition run_inv :: "nat \<Rightarrow> run \<Rightarrow> bool" where
  "run_inv n s = (posted s = progress_upto (processed s) n \<and> errors s = length (errorsList s))"

text \<open>One record object handled under its position in the input, counted from 1.\<close>

definition row_step :: "env \<Rightarrow> nat \<Rightarrow> record_obj \<Rightarrow> run \<Rightarrow> run" where
  "row_step E n obj = process_record E n (int (fst obj) + 1) (snd obj)"

text \<open>
  The reading of the specification without batches: the whole sequence of records, one
  row at a time in input order, the \<open>k\<close>-th row (from 0) reported as row \<open>k + 1\<close>.
\<close>

fun sequential_from :: "env \<Rightarrow> nat \<Rightarrow> nat \<Rightarrow> csv_record list \<Rightarrow> run \<Rightarrow> run" where
  "sequential_from E n k [] s = s"
| "sequential_from E n k (r # rs) s =
     sequential_from E n (Suc k) rs (process_record E n (int k + 1) r s)"

definition sequential_run :: "env \<Rightarrow> csv_record list \<Rightarrow> run \<Rightarrow> run" where
  "sequential_run E rows s = sequential_from E (length rows) 0 rows s"


text \<open>
  The rule of the specification for creating a Policy, read on the record and on the
  store as it is before the record is handled: the policy number, the category name and
  the company name are present, both policy dates are present and parse, and the store
  has no Policy with that number.
\<close>

definition policy_condition :: "env \<Rightarrow> csv_record \<Rightarrow> store \<Rightarrow> bool" where
  "policy_condition E record st =
     (truthy (policy_number record) \<and> truthy (category_name record) \<and>
      truthy (company_name record) \<and>
      parse_field E (policy_start_date record) \<noteq> None \<and>
      parse_field E (policy_end_date record) \<noteq> None \<and>
      (\<forall>doc\<in>set (policies st). p_policy_number (snd doc) \<noteq> or_empty (policy_number record)))"

text \<open>
  The store holds a Person that \<open>User.findOne\<close> finds for the record: first name and
  email are present and some stored Person has them, as the setters leave them.
\<close>

definition person_stored :: "env \<Rightarrow> csv_record \<Rightarrow> store \<Rightarrow> bool" where
  "person_stored E record st =
     (truthy (firstname record) \<and> truthy (email record) \<and>
      (\<exists>doc\<in>set (users st).
         u_firstname (snd doc) = trim E (or_empty (firstname record)) \<and>
         u_email (snd doc) = email_setter E (or_empty (email record))))"

text \<open>
  The Person of a record resolves without a validation error: its key is cached, or the
  store holds its Person, or the first name is not empty after trimming and the date of
  birth parses (so that \<open>User.create\<close> validates).
\<close>

definition person_resolvable :: "env \<Rightarrow> csv_record \<Rightarrow> resolver \<Rightarrow> bool" where
  "person_resolvable E record r =
     (userCache r (userKey record) \<noteq> None \<or> person_stored E record (db r) \<or>
      (trim E (or_empty (firstname record)) \<noteq> [] \<and> parse_field E (dob record) \<noteq> None))"

text \<open>
  The account of a record resolves without a validation error: there is no account
  name, or it is cached, or the store holds it, or it is not empty after trimming.
\<close>

definition account_resolvable :: "env \<Rightarrow> csv_record \<Rightarrow> resolver \<Rightarrow> bool" where
  "account_resolvable E record r =
     (\<not> truthy (account_name record) \<or>
      cache r UserAccount (or_empty (account_name record)) \<noteq> None \<or>
      (\<exists>doc\<in>set (refs (db r) UserAccount).
         snd doc = trim E (or_empty (account_name record))) \<or>
      trim E (or_empty (account_name record)) \<noteq> [])"

text \<open>
  None of the \<open>n\<close> storage calls from call number \<open>a\<close> on is rejected. One record
  makes at most twelve storage calls: a lookup and a creation for each of its six
  entities.
\<close>

definition calls_succeed :: "env \<Rightarrow> nat \<Rightarrow> nat \<Rightarrow> bool" where
  "calls_succeed E a n = (\<forall>i<n. fault E (a + i) = None)"

text \<open>No storage call of the run is rejected.\<close>

definition no_faults :: "env \<Rightarrow> bool" where
  "no_faults E = (\<forall>n. fault E n = None)"

text \<open>The state of the run when the loop of \<open>processCSV\<close> has ended.\<close>

definition final_run :: "env \<Rightarrow> csv_record list \<Rightarrow> store \<Rightarrow> run" where
  "final_run E rows st = batch_loop E batchSize (objects rows) 0 (init_run st)"

text \<open>The message that ends a run whose loop has ended in state \<open>s\<close>.\<close>

definition closing_message :: "env \<Rightarrow> nat \<Rightarrow> run \<Rightarrow> message" where
  "closing_message E n s =
     (case fault E (length (calls (res s))) of
        Some m \<Rightarrow> Error m
      | None \<Rightarrow> Done True (processed s) (errors s) n (take 10 (errorsList s)))"

text \<open>
  The failures outside the per-row \<open>try\<close>: the connection is refused, the parser throws,
  or closing the connection fails.
\<close>

definition unrecoverable :: "env \<Rightarrow> string \<Rightarrow> store \<Rightarrow> bool" where
  "unrecoverable E csvData st =
     (fault E 0 \<noteq> None \<or>
      (case csv_parse E csvData of
         Inl m \<Rightarrow> True
       | Inr rows \<Rightarrow> fault E (length (calls (res (final_run E rows st)))) \<noteq> None))"

fun is_error :: "message \<Rightarrow> bool" where
  "is_error (Error m) = True"
| "is_error _ = False"

subsection \<open>Concrete inputs\<close>

definition demo_dates :: "string \<Rightarrow> jsdate option" where
  "demo_dates s =
     (if s = ''2024-01-01'' then Some 1704067200000
      else if s = ''2024-12-31'' then Some 1735603200000
      else if s = ''1990-05-17'' then Some 642902400000
      else None)"

text \<open>Trimming, for strings whose white space is the space character.\<close>

definition trim_spaces :: "string \<Rightarrow> string" where
  "trim_spaces s =
     rev (dropWhile (\<lambda>c. c = CHR '' '') (rev (dropWhile (\<lambda>c. c = CHR '' '') s)))"

text \<open>
  An environment in which no storage call fails and the parser returns the given rows.
  The strings used below are in lower case already and have no white space but spaces.
\<close>

definition env_with :: "csv_record list \<Rightarrow> env" where
  "env_with rows =
     \<lparr>parse_date = demo_dates, trim = trim_spaces, to_lower = (\<lambda>s. s),
      csv_parse = (\<lambda>_. Inr rows), fault = (\<lambda>_. None)\<rparr>"

definition empty_store :: store where
  "empty_store = \<lparr>refs = (\<lambda>_. []), users = [], policies = [], next_oid = 0\<rparr>"

definition blank_record :: csv_record where
  "blank_record =
     \<lparr>agent = None, category_name = None, company_name = None, firstname = None, dob = None,
      address = None, phone = None, state = None, zip_f = None, email = None, gender = None,
      userType = None, account_name = None, policy_start_date = None, policy_end_date = None,
      policy_number = None\<rparr>"

definition good_record :: csv_record where
  "good_record =
     blank_record\<lparr>agent := Some ''alex'', category_name := Some ''auto'',
       company_name := Some ''acme corp'', firstname := Some ''lura'',
       dob := Some ''1990-05-17'', email := Some ''lura@example.com'',
       account_name := Some ''lura and family'', policy_start_date := Some ''2024-01-01'',
       policy_end_date := Some ''2024-12-31'', policy_number := Some ''pn-001''\<rparr>"

text \<open>A record with a Person and nothing else, and a payload of 205 of them.\<close>

definition person_only_record :: csv_record where
  "person_only_record = blank_record\<lparr>firstname := Some ''lura'', dob := Some ''1990-05-17''\<rparr>"

definition many_rows :: "csv_record list" where
  "many_rows = person_only_record # replicate 204 person_only_record"

text \<open>The environment \<open>env_with rows\<close>, except that storage call number \<open>c\<close> is rejected.\<close>

definition env_failing_at :: "csv_record list \<Rightarrow> nat \<Rightarrow> string \<Rightarrow> env" where
  "env_failing_at rows c m = (env_with rows)\<lparr>fault := (\<lambda>n. if n = c then Some m else None)\<rparr>"

definition no_firstname_record :: csv_record where
  "no_firstname_record = good_record\<lparr>firstname := None\<rparr>"

definition spaces_firstname_record :: csv_record where
  "spaces_firstname_record = good_record\<lparr>firstname := Some ''  ''\<rparr>"

definition bad_dob_record :: csv_record where
  "bad_dob_record =
     good_record\<lparr>firstname := Some ''sam'', email := Some ''sam@example.com'',
       dob := Some ''31/31/1990'', policy_number := Some ''pn-002''\<rparr>"

definition bad_start_record :: csv_record where
  "bad_start_record =
     good_record\<lparr>policy_start_date := Some ''not a date'', policy_number := Some ''pn-003''\<rparr>"

section \<open>Properties\<close>

subsection \<open>Batches and positions\<close>

lemma indexOf_upt:
  "map fst ys = [i..<i + length ys] \<Longrightarrow> x \<in> set ys \<Longrightarrow> indexOf ys x = int (fst x) - int i"
proof (induction ys arbitrary: i)
  case Nil
  then show ?case by simp
next
  case (Cons y ys)
  from Cons.prems(1) have hd: "fst y = i" and tl: "map fst ys = [Suc i..<Suc i + length ys]"
    by (simp_all add: upt_conv_Cons del: upt_Suc)
  show ?case
  proof (cases "fst x = i")
    case True
    with hd show ?thesis by simp
  next
    case False
    with hd Cons.prems(2) have mem: "x \<in> set ys" by auto
    then have "fst x \<in> set (map fst ys)" by force
    with tl have "Suc i \<le> fst x" by (simp del: upt_Suc)
    moreover from Cons.IH [OF tl mem] have "indexOf ys x = int (fst x) - int (Suc i)" .
    ultimately show ?thesis using hd False by (simp add: Let_def)
  qed
qed

lemma length_objects [simp]: "length (objects rows) = length rows"
  by (simp add: objects_def)

lemma map_fst_slice_objects:
  "map fst (slice (objects rows) i (i + b)) = [i..<i + length (slice (objects rows) i (i + b))]"
  by (cases "i \<le> length rows")
    (simp_all add: slice_def objects_def take_map drop_map map_fst_zip_take take_upt drop_upt
       min_def take_zip drop_zip)

lemma process_batch_slice:
  "process_batch E n i (slice (objects rows) i (i + b)) s =
   fold (row_step E n) (slice (objects rows) i (i + b)) s"
  unfolding process_batch_def
  by (rule fold_cong) (simp_all add: row_step_def indexOf_upt [OF map_fst_slice_objects])

lemma batch_loop_flat:
  "0 < b \<Longrightarrow>
   batch_loop E b (objects rows) i s = fold (row_step E (length rows)) (drop i (objects rows)) s"
proof (induction "length rows - i" arbitrary: i s rule: less_induct)
  case less
  show ?case
  proof (cases "i < length rows")
    case False
    then show ?thesis by (subst batch_loop.simps) simp
  next
    case True
    with less.prems have dec: "length rows - (i + b) < length rows - i" by arith
    have split: "drop i (objects rows) = slice (objects rows) i (i + b) @ drop (i + b) (objects rows)"
      by (simp add: slice_def add.commute [of i b] flip: drop_drop)
    have "batch_loop E b (objects rows) i s =
          batch_loop E b (objects rows) (i + b)
            (process_batch E (length rows) i (slice (objects rows) i (i + b)) s)"
      using True less.prems by (subst batch_loop.simps) simp
    also have "\<dots> = fold (row_step E (length rows)) (drop (i + b) (objects rows))
                      (fold (row_step E (length rows)) (slice (objects rows) i (i + b)) s)"
      using less.hyps [OF dec less.prems] by (simp add: process_batch_slice)
    also have "\<dots> = fold (row_step E (length rows)) (drop i (objects rows)) s"
      by (subst split) simp
    finally show ?thesis .
  qed
qed

lemma fold_row_step_sequential:
  "fold (row_step E n) (zip [k..<k + length rs] rs) s = sequential_from E n k rs s"
proof (induction rs arbitrary: k s)
  case Nil
  then show ?case by simp
next
  case (Cons r rs)
  have "[k..<k + length (r # rs)] = k # [Suc k..<Suc k + length rs]"
    by (simp add: upt_conv_Cons del: upt_Suc)
  then show ?case using Cons.IH [of "Suc k"] by (simp add: row_step_def)
qed

lemma fold_objects_sequential:
  "fold (row_step E n) (objects rows) s = sequential_from E n 0 rows s"
  using fold_row_step_sequential [of E n 0 rows s] by (simp add: objects_def)


lemma batch_loop_sequential:
  "0 < b \<Longrightarrow> batch_loop E b (objects rows) 0 s = sequential_from E (length rows) 0 rows s"
  by (simp add: batch_loop_flat fold_objects_sequential)

subsection \<open>What one record does to the counters\<close>

lemma process_record_cases:
  obtains (ok) r' where "resolve_record E row (res s) = (Inr (), r')"
      "process_record E n k row s =
         s\<lparr>res := r', processed := processed s + 1,
           posted := (if (processed s + 1) mod 50 = 0
                      then posted s @ [Progress (processed s + 1) n] else posted s)\<rparr>"
  | (err) m r' where "resolve_record E row (res s) = (Inl m, r')"
      "process_record E n k row s =
         s\<lparr>res := r', errors := errors s + 1,
           errorsList := errorsList s @
             [\<lparr>e_row = k, e_error = m, e_record = or_NA (policy_number row)\<rparr>]\<rparr>"
proof (cases "resolve_record E row (res s)")
  case (Pair a r')
  show ?thesis
  proof (cases a)
    case (Inl m)
    with Pair show ?thesis by (intro err [of m r']) (simp_all add: process_record_def)
  next
    case (Inr u)
    with Pair show ?thesis by (intro ok [of r']) (simp_all add: process_record_def Let_def)
  qed
qed

lemma div50_hit:
  assumes "Suc p mod 50 = 0"
  shows "Suc p div 50 = Suc (p div 50)" and "50 * Suc (p div 50) = Suc p"
proof -
  show d: "Suc p div 50 = Suc (p div 50)"
    using assms by (simp only: div_Suc if_True simp_thms)
  have "50 * (Suc p div 50) + Suc p mod 50 = Suc p"
    by (rule mult_div_mod_eq)
  then show "50 * Suc (p div 50) = Suc p"
    unfolding d assms by (simp only: add_0_right)
qed

lemma div50_miss: "Suc p mod 50 \<noteq> 0 \<Longrightarrow> Suc p div 50 = p div 50"
  by (simp only: div_Suc if_False simp_thms)

lemma progress_upto_step:
  "progress_upto (Suc p) n =
     (if Suc p mod 50 = 0 then progress_upto p n @ [Progress (Suc p) n] else progress_upto p n)"
proof (cases "Suc p mod 50 = 0")
  case True
  have "progress_upto (Suc p) n = map (\<lambda>j. Progress (50 * j) n) [1..<Suc (Suc (p div 50))]"
    unfolding progress_upto_def div50_hit(1) [OF True] ..
  also have "\<dots> = progress_upto p n @ [Progress (50 * Suc (p div 50)) n]"
    unfolding progress_upto_def by (simp only: upt_Suc map_append list.map) simp
  finally show ?thesis
    unfolding div50_hit(2) [OF True] using True by (simp only: if_True simp_thms)
next
  case False
  have "progress_upto (Suc p) n = progress_upto p n"
    unfolding progress_upto_def div50_miss [OF False] ..
  with False show ?thesis by (simp only: if_False simp_thms)
qed

lemma process_record_inv:
  assumes "run_inv n s"
  shows "run_inv n (process_record E n k row s)"
  by (rule process_record_cases [of E row s n k])
    (use assms in \<open>simp_all add: run_inv_def progress_upto_step\<close>)

lemma process_record_count:
  "processed (process_record E n k row s) + errors (process_record E n k row s) =
     processed s + errors s + 1"
  by (rule process_record_cases [of E row s n k]) simp_all

lemma sequential_from_inv:
  "run_inv n s \<Longrightarrow>
     run_inv n (sequential_from E n k rs s) \<and>
     processed (sequential_from E n k rs s) + errors (sequential_from E n k rs s) =
       processed s + errors s + length rs"
proof (induction rs arbitrary: k s)
  case Nil
  then show ?case by simp
next
  case (Cons r rs)
  let ?s1 = "process_record E n (int k + 1) r s"
  have inv1: "run_inv n ?s1"
    by (rule process_record_inv [OF Cons.prems])
  have cnt1: "processed ?s1 + errors ?s1 = processed s + errors s + 1"
    by (rule process_record_count)
  from Cons.IH [OF inv1, of "Suc k"] cnt1 show ?case by simp
qed

lemma run_inv_init: "run_inv n (init_run st)"
  by (simp add: run_inv_def init_run_def progress_upto_def)

lemma batch_loop_inv:
  assumes "0 < b"
  shows "posted (batch_loop E b (objects rows) 0 (init_run st)) =
           progress_upto (processed (batch_loop E b (objects rows) 0 (init_run st))) (length rows)"
    and "errors (batch_loop E b (objects rows) 0 (init_run st)) =
           length (errorsList (batch_loop E b (objects rows) 0 (init_run st)))"
    and "processed (batch_loop E b (objects rows) 0 (init_run st)) +
           errors (batch_loop E b (objects rows) 0 (init_run st)) = length rows"
proof -
  have eq: "batch_loop E b (objects rows) 0 (init_run st) =
            sequential_from E (length rows) 0 rows (init_run st)"
    by (rule batch_loop_sequential [OF assms])
  have z: "processed (init_run st) = 0" "errors (init_run st) = 0"
    by (simp_all add: init_run_def)
  note f = sequential_from_inv [OF run_inv_init, of "length rows" E 0 rows st]
  show "posted (batch_loop E b (objects rows) 0 (init_run st)) =
           progress_upto (processed (batch_loop E b (objects rows) 0 (init_run st))) (length rows)"
    using f unfolding eq run_inv_def by blast
  show "errors (batch_loop E b (objects rows) 0 (init_run st)) =
           length (errorsList (batch_loop E b (objects rows) 0 (init_run st)))"
    using f unfolding eq run_inv_def by blast
  show "processed (batch_loop E b (objects rows) 0 (init_run st)) +
           errors (batch_loop E b (objects rows) 0 (init_run st)) = length rows"
    using f unfolding eq z by simp
qed

lemma progress_upto_all_progress: "list_all is_progress (progress_upto p n)"
  by (simp add: progress_upto_def list_all_iff)

lemma progress_upto_increasing: "sorted_wrt (<) (map progress_count (progress_upto p n))"
  by (simp add: progress_upto_def sorted_wrt_map comp_def del: upt_Suc)

lemma progress_upto_mem:
  "m \<in> set (progress_upto p n) \<longleftrightarrow> (\<exists>j. 0 < j \<and> 50 * j \<le> p \<and> m = Progress (50 * j) n)"
proof -
  have h: "(Suc 0 \<le> j \<and> j < Suc (p div 50)) = (0 < j \<and> 50 * j \<le> p)" for j
    using less_eq_div_iff_mult_less_eq [of 50 j p]
    by (simp only: Suc_le_eq less_Suc_eq_le mult.commute [of j 50])
  show ?thesis
    unfolding progress_upto_def set_map image_iff set_upt Bex_def atLeastLessThan_iff One_nat_def h
    by blast
qed

subsection \<open>The messages of a run\<close>


lemma final_run_inv:
  "posted (final_run E rows st) = progress_upto (processed (final_run E rows st)) (length rows)"
  "errors (final_run E rows st) = length (errorsList (final_run E rows st))"
  "processed (final_run E rows st) + errors (final_run E rows st) = length rows"
  unfolding final_run_def by (rule batch_loop_inv; simp add: batchSize_def)+


lemma processCSV_messages:
  "fst (processCSV E csvData st) =
     (case fault E 0 of
        Some m \<Rightarrow> [Error m]
      | None \<Rightarrow>
          (case csv_parse E csvData of
             Inl m \<Rightarrow> [Error m]
           | Inr rows \<Rightarrow>
               progress_upto (processed (final_run E rows st)) (length rows) @
               [closing_message E (length rows) (final_run E rows st)]))"
  by (simp add: processCSV_def processCSV_with_def closing_message_def Let_def
      final_run_inv(1) [symmetric] final_run_def [symmetric]
      split: option.splits sum.splits)

lemma Done_not_progress: "Done ok p e t el \<notin> set (progress_upto q n)"
  by (simp add: progress_upto_def image_iff del: upt_Suc)

lemma processCSV_Done:
  assumes "Done ok p e t el \<in> set (fst (processCSV E csvData st))"
  obtains rows where "fault E 0 = None" "csv_parse E csvData = Inr rows"
    "fault E (length (calls (res (final_run E rows st)))) = None"
    "ok" "p = processed (final_run E rows st)" "e = errors (final_run E rows st)"
    "t = length rows" "el = take 10 (errorsList (final_run E rows st))"
    "fst (processCSV E csvData st) =
       progress_upto p t @ [Done True p e t el]"
  using assms unfolding processCSV_messages
  by (auto simp: closing_message_def Done_not_progress split: option.splits sum.splits)

lemma take_10_min: "take 10 xs = take (min (length xs) 10) xs"
  by (simp add: min_def)

lemma length_take_10: "length (take 10 xs) = min (length xs) 10"
  by simp

subsection \<open>The error list of the final message\<close>

text \<open>
  C5. When a run ends with a \<open>done\<close> message, its \<open>errors\<close> field is the full number of
  recorded errors, and its \<open>errorsList\<close> holds the first \<open>min(errors, 10)\<close> recorded
  entries in the order of recording; with 15 errors the list has 10 entries.
\<close>

theorem done_reports_full_error_count:
  assumes "Done ok p e t el \<in> set (fst (processCSV E csvData st))"
  shows "\<exists>rows. csv_parse E csvData = Inr rows \<and>
           e = errors (final_run E rows st) \<and>
           e = length (errorsList (final_run E rows st)) \<and>
           el = take (min e 10) (errorsList (final_run E rows st)) \<and>
           length el = min e 10 \<and>
           (e = 15 \<longrightarrow> length el = 10)"
proof -
  from assms obtain rows where r: "csv_parse E csvData = Inr rows"
    and e: "e = errors (final_run E rows st)"
    and el: "el = take 10 (errorsList (final_run E rows st))"
    by (rule processCSV_Done)
  have len: "e = length (errorsList (final_run E rows st))"
    unfolding e by (rule final_run_inv(2))
  have el': "el = take (min e 10) (errorsList (final_run E rows st))"
    unfolding el len by (rule take_10_min)
  have lel: "length el = min e 10"
    unfolding el len by (rule length_take_10)
  have "e = 15 \<longrightarrow> length el = 10"
    unfolding lel by simp
  with r e len el' lel show ?thesis by blast
qed


text \<open>The equations that evaluate a run on a concrete input.\<close>

lemmas run_eval =
  processCSV_def processCSV_with_def batchSize_def batch_loop_sequential env_with_def
  init_run_def empty_store_def blank_record_def good_record_def no_firstname_record_def
  spaces_firstname_record_def person_only_record_def env_failing_at_def
  bad_dob_record_def bad_start_record_def process_record_def
  resolve_record_def policy_step_def getOrCreateAgent_def getOrCreateLOB_def getOrCreateCarrier_def
  getOrCreateUserAccount_def getOrCreateRef_def getOrCreateUser_def bindE_def returnE_def
  findOne_ref_def create_ref_def ref_setter_def ref_validation_def email_setter_def
  trim_spaces_def User_findOne_def User_create_def User_validation_def
  Policy_findOne_def Policy_create_def storage_call_def cache_set_def parse_field_def
  userKey_def policy_wanted_def demo_dates_def or_NA_def Let_def

theorem done_reports_full_error_count_witness:
  "Done True 0 1 1
     [\<lparr>e_row = 1,
       e_error = ''User validation failed: firstname: Path `firstname` is required., dob: Path `dob` is required.'',
       e_record = ''N/A''\<rparr>]
     \<in> set (fst (processCSV (env_with [blank_record]) ''csv'' empty_store)) \<and>
   (\<exists>rows. csv_parse (env_with [blank_record]) ''csv'' = Inr rows \<and>
      (1::nat) = errors (final_run (env_with [blank_record]) rows empty_store) \<and>
      (1::nat) = length (errorsList (final_run (env_with [blank_record]) rows empty_store)) \<and>
      [\<lparr>e_row = 1,
        e_error = ''User validation failed: firstname: Path `firstname` is required., dob: Path `dob` is required.'',
        e_record = ''N/A''\<rparr>] =
        take (min 1 10) (errorsList (final_run (env_with [blank_record]) rows empty_store)))"
proof -
  have h: "Done True 0 1 1
     [\<lparr>e_row = 1,
       e_error = ''User validation failed: firstname: Path `firstname` is required., dob: Path `dob` is required.'',
       e_record = ''N/A''\<rparr>]
     \<in> set (fst (processCSV (env_with [blank_record]) ''csv'' empty_store))"
    by (simp add: run_eval)
  from done_reports_full_error_count [OF h] h show ?thesis by blast
qed

subsection \<open>The two counters\<close>

text \<open>
  C10. In a run that ends with \<open>done\<close>, every record has incremented exactly one of
  \<open>processed\<close> and \<open>errors\<close>, once, so \<open>processed + errors = total\<close>, the number of
  parsed records; the \<open>processed\<close> values of the progress messages increase strictly and
  never exceed \<open>total\<close>.
\<close>

theorem counters_partition_the_rows:
  assumes "Done ok p e t el \<in> set (fst (processCSV E csvData st))"
  shows "p + e = t \<and>
         (\<exists>rows. csv_parse E csvData = Inr rows \<and> t = length rows) \<and>
         sorted_wrt (<) (map progress_count (filter is_progress (fst (processCSV E csvData st)))) \<and>
         (\<forall>q n. Progress q n \<in> set (fst (processCSV E csvData st)) \<longrightarrow> q \<le> t \<and> n = t) \<and>
         ((processed (process_record E' n' k row s) = processed s + 1 \<and>
           errors (process_record E' n' k row s) = errors s) \<or>
          (processed (process_record E' n' k row s) = processed s \<and>
           errors (process_record E' n' k row s) = errors s + 1))"
proof -
  from assms obtain rows where r: "csv_parse E csvData = Inr rows"
    and p: "p = processed (final_run E rows st)" and e: "e = errors (final_run E rows st)"
    and t: "t = length rows"
    and msgs: "fst (processCSV E csvData st) = progress_upto p t @ [Done True p e t el]"
    by (rule processCSV_Done)
  have sum: "p + e = t"
    unfolding p e t by (rule final_run_inv(3))
  have flt: "filter is_progress (fst (processCSV E csvData st)) = progress_upto p t"
    unfolding msgs using progress_upto_all_progress [of p t]
    by (simp add: list_all_iff)
  have srt: "sorted_wrt (<) (map progress_count (filter is_progress (fst (processCSV E csvData st))))"
    unfolding flt by (rule progress_upto_increasing)
  have bnd: "q \<le> t \<and> n = t" if "Progress q n \<in> set (fst (processCSV E csvData st))" for q n
  proof -
    from that have "Progress q n \<in> set (progress_upto p t)" unfolding msgs by simp
    then obtain j where "50 * j \<le> p" "Progress q n = Progress (50 * j) t"
      unfolding progress_upto_mem by blast
    with sum show ?thesis by simp
  qed
  have one: "(processed (process_record E' n' k row s) = processed s + 1 \<and>
           errors (process_record E' n' k row s) = errors s) \<or>
          (processed (process_record E' n' k row s) = processed s \<and>
           errors (process_record E' n' k row s) = errors s + 1)"
    by (rule process_record_cases [of E' row s n' k]) simp_all
  from sum r t srt bnd one show ?thesis by blast
qed


theorem counters_partition_the_rows_witness:
  "Done True 1 1 2
     [\<lparr>e_row = 2,
       e_error = ''User validation failed: firstname: Path `firstname` is required., dob: Path `dob` is required.'',
       e_record = ''N/A''\<rparr>]
     \<in> set (fst (processCSV (env_with [good_record, blank_record]) ''csv'' empty_store)) \<and>
   (1::nat) + 1 = 2 \<and>
   (\<exists>rows. csv_parse (env_with [good_record, blank_record]) ''csv'' = Inr rows \<and>
      2 = length rows)"
proof -
  have h: "Done True 1 1 2
     [\<lparr>e_row = 2,
       e_error = ''User validation failed: firstname: Path `firstname` is required., dob: Path `dob` is required.'',
       e_record = ''N/A''\<rparr>]
     \<in> set (fst (processCSV (env_with [good_record, blank_record]) ''csv'' empty_store))"
    by (simp add: run_eval)
  from counters_partition_the_rows [OF h] h show ?thesis by blast
qed


lemma is_terminal_closing: "is_terminal (closing_message E n s)"
  by (simp add: closing_message_def split: option.splits)


subsection \<open>Progress messages\<close>



subsection \<open>The terminal message\<close>

text \<open>
  C7 (as amended). A run started with a non-empty payload posts progress messages and
  then exactly one terminal message, its last: \<open>error\<close> when the connection, the parser or
  the closing of the connection fails, \<open>done\<close> otherwise. With an empty or absent payload
  the worker never calls \<open>processCSV\<close> and posts nothing.
\<close>

lemma closing_is_error:
  "is_error (closing_message E n s) \<longleftrightarrow> fault E (length (calls (res s))) \<noteq> None"
  by (simp add: closing_message_def split: option.splits)

theorem one_terminal_message_per_started_run:
  "(truthy csvData \<longrightarrow>
      (\<exists>progs final. fst (worker_main E csvData st) = progs @ [final] \<and>
         list_all is_progress progs \<and> is_terminal final \<and>
         (is_error final \<longleftrightarrow> unrecoverable E (or_empty csvData) st))) \<and>
   (\<not> truthy csvData \<longrightarrow> fst (worker_main E csvData st) = [])"
proof (intro conjI impI)
  assume "\<not> truthy csvData"
  then show "fst (worker_main E csvData st) = []" by (simp add: worker_main_def)
next
  assume t: "truthy csvData"
  let ?csv = "or_empty csvData"
  have w: "fst (worker_main E csvData st) = fst (processCSV E ?csv st)"
    using t by (simp add: worker_main_def)
  show "\<exists>progs final. fst (worker_main E csvData st) = progs @ [final] \<and>
         list_all is_progress progs \<and> is_terminal final \<and>
         (is_error final \<longleftrightarrow> unrecoverable E (or_empty csvData) st)"
  proof (cases "fault E 0")
    case (Some m)
    then have "fst (worker_main E csvData st) = [] @ [Error m]"
      unfolding w processCSV_messages by simp
    moreover have "unrecoverable E ?csv st" using Some by (simp add: unrecoverable_def)
    ultimately show ?thesis by (intro exI [of _ "[]"] exI [of _ "Error m"]) simp
  next
    case None
    show ?thesis
    proof (cases "csv_parse E ?csv")
      case (Inl m)
      then have "fst (worker_main E csvData st) = [] @ [Error m]"
        unfolding w processCSV_messages using None by simp
      moreover have "unrecoverable E ?csv st" using Inl by (simp add: unrecoverable_def)
      ultimately show ?thesis by (intro exI [of _ "[]"] exI [of _ "Error m"]) simp
    next
      case (Inr rows)
      let ?s = "final_run E rows st"
      have "fst (worker_main E csvData st) =
              progress_upto (processed ?s) (length rows) @ [closing_message E (length rows) ?s]"
        unfolding w processCSV_messages using None Inr by simp
      moreover have "is_error (closing_message E (length rows) ?s) \<longleftrightarrow> unrecoverable E ?csv st"
        using None Inr by (simp add: unrecoverable_def closing_is_error)
      ultimately show ?thesis
        using progress_upto_all_progress [of "processed ?s" "length rows"]
          is_terminal_closing [of E "length rows" ?s]
        by blast
    qed
  qed
qed

theorem one_terminal_message_per_started_run_witness:
  "truthy (Some ''csv'') \<and>
   (\<exists>progs final. fst (worker_main (env_with [good_record]) (Some ''csv'') empty_store) =
        progs @ [final] \<and>
      list_all is_progress progs \<and> is_terminal final \<and>
      (is_error final \<longleftrightarrow> unrecoverable (env_with [good_record]) (or_empty (Some ''csv'')) empty_store)) \<and>
   \<not> truthy (Some []) \<and>
   fst (worker_main (env_with [good_record]) (Some []) empty_store) = []"
  using one_terminal_message_per_started_run [of "Some ''csv''" "env_with [good_record]" empty_store]
    one_terminal_message_per_started_run [of "Some []" "env_with [good_record]" empty_store]
  by simp

text \<open>
  The claim as stated fails on the empty payload (an uploaded empty file): the guard at
  the entry of the worker is falsy, and no message at all is posted.
\<close>

theorem empty_payload_posts_nothing:
  "fst (worker_main (env_with []) (Some []) empty_store) = []"
  by (simp add: worker_main_def)

subsection \<open>Batches\<close>

text \<open>
  C9. For every positive batch size, the loop over batches is the row-by-row run: every
  record once, in input order, reported under its position; the run's messages and the
  store it leaves are those of the batch size 100 of the source.
\<close>

theorem batches_equal_row_by_row:
  assumes "0 < b"
  shows "batch_loop E b (objects rows) 0 s = sequential_run E rows s \<and>
         processCSV_with E b csvData st = processCSV E csvData st"
proof -
  have a: "batch_loop E b (objects rows) 0 s = sequential_run E rows s" for rows s
    unfolding sequential_run_def by (rule batch_loop_sequential [OF assms])
  have c: "batch_loop E batchSize (objects rows) 0 s = sequential_run E rows s" for rows s
    unfolding sequential_run_def by (rule batch_loop_sequential) (simp add: batchSize_def)
  have "processCSV_with E b csvData st = processCSV E csvData st"
    unfolding processCSV_def processCSV_with_def a c ..
  with a show ?thesis by blast
qed

theorem batches_equal_row_by_row_witness:
  "(0::nat) < 3 \<and>
   batch_loop (env_with [good_record, blank_record]) 3 (objects [good_record, blank_record]) 0
     (init_run empty_store) =
   sequential_run (env_with [good_record, blank_record]) [good_record, blank_record]
     (init_run empty_store) \<and>
   processCSV_with (env_with [good_record, blank_record]) 3 ''csv'' empty_store =
   processCSV (env_with [good_record, blank_record]) ''csv'' empty_store"
  using batches_equal_row_by_row [of 3 "env_with [good_record, blank_record]"
      "[good_record, blank_record]" "init_run empty_store" "''csv''" empty_store]
  by simp

subsection \<open>A record that throws\<close>








subsection \<open>What the resolvers change and return\<close>


lemma storage_call_result:
  "storage_call E op f r =
     (case fault E (length (calls r)) of
        Some m \<Rightarrow> (Inl m, r\<lparr>calls := calls r @ [op]\<rparr>)
      | None \<Rightarrow> (Inr (fst (f (db r))), r\<lparr>calls := calls r @ [op], db := snd (f (db r))\<rparr>))"
  by (simp add: storage_call_def Let_def split: option.splits prod.splits)

lemmas resolver_defs =
  getOrCreateRef_def getOrCreateUser_def findOne_ref_def create_ref_def User_findOne_def
  User_create_def Policy_findOne_def Policy_create_def storage_call_result bindE_def returnE_def
  cache_set_def

lemma getOrCreateRef_frame:
  assumes "getOrCreateRef E M label r = (a, r')"
  shows "policies (db r') = policies (db r)" and "users (db r') = users (db r)"
    and "userCache r' = userCache r"
  using assms
  by (auto simp: resolver_defs split: if_splits option.splits sum.splits prod.splits)

lemma getOrCreateRef_result:
  assumes "getOrCreateRef E M label r = (Inr x, r')"
  shows "(x \<noteq> None) = truthy label" and "truthy label \<Longrightarrow> cache r' M (or_empty label) = x"
proof -
  have "(x \<noteq> None) = truthy label \<and> (truthy label \<longrightarrow> cache r' M (or_empty label) = x)"
  proof (cases "truthy label")
    case False
    with assms show ?thesis by (simp add: getOrCreateRef_def)
  next
    case True
    show ?thesis
    proof (cases "cache r M (or_empty label)")
      case (Some i)
      with True assms have "x = Some i" "r' = r" by (simp_all add: getOrCreateRef_def)
      with True Some show ?thesis by simp
    next
      case None
      with True assms show ?thesis
        by (auto simp: resolver_defs split: option.splits sum.splits prod.splits)
    qed
  qed
  then show "(x \<noteq> None) = truthy label" and "truthy label \<Longrightarrow> cache r' M (or_empty label) = x"
    by blast+
qed

lemma getOrCreateRef_cache_mono:
  assumes "getOrCreateRef E M label r = (a, r')" and "cache r M' l = Some i"
  shows "cache r' M' l = Some i"
  using assms
  by (auto simp: resolver_defs split: if_splits option.splits sum.splits prod.splits)

lemma getOrCreateUser_frame:
  assumes "getOrCreateUser E row r = (a, r')"
  shows "policies (db r') = policies (db r)" and "cache r' = cache r"
    and "refs (db r') = refs (db r)"
  using assms
  by (auto simp: resolver_defs split: if_splits option.splits sum.splits prod.splits)

lemma getOrCreateUser_result:
  assumes "getOrCreateUser E row r = (Inr x, r')"
  shows "x \<noteq> None" and "userCache r' (userKey row) = x"
proof -
  have "x \<noteq> None \<and> userCache r' (userKey row) = x"
  proof (cases "userCache r (userKey row)")
    case (Some i)
    with assms have "x = Some i" "r' = r" by (simp_all add: getOrCreateUser_def)
    with Some show ?thesis by simp
  next
    case None
    with assms show ?thesis
      by (auto simp: resolver_defs split: if_splits option.splits sum.splits prod.splits)
  qed
  then show "x \<noteq> None" and "userCache r' (userKey row) = x" by blast+
qed


lemma bindE_cases:
  assumes "bindE m f r = (a, r')"
  obtains (throws) e where "m r = (Inl e, r')" "a = Inl e"
  | (returns) x r1 where "m r = (Inr x, r1)" "f x r1 = (a, r')"
  using assms by (auto simp: bindE_def split: prod.splits sum.splits)

lemma policy_step_frame:
  assumes "policy_step E row l c u r = (a, r')"
  shows "cache r' = cache r" and "userCache r' = userCache r"
    and "users (db r') = users (db r)" and "refs (db r') = refs (db r)"
  using assms
  by (auto simp: policy_step_def Let_def resolver_defs
      split: if_splits option.splits sum.splits prod.splits)

lemma policy_step_throws:
  assumes "policy_step E row l c u r = (Inl m, r')"
  shows "policies (db r') = policies (db r)"
  using assms
  by (auto simp: policy_step_def Let_def resolver_defs
      split: if_splits option.splits sum.splits prod.splits)

lemma policy_step_returns:
  assumes "policy_step E row l c u r = (Inr v, r')"
  shows "policies (db r') =
     (if policy_wanted row l c u (parse_field E (policy_start_date row))
           (parse_field E (policy_end_date row)) \<and>
         (\<forall>doc\<in>set (policies (db r)). p_policy_number (snd doc) \<noteq> or_empty (policy_number row))
      then policies (db r) @
        [(next_oid (db r),
          \<lparr>p_policy_number = or_empty (policy_number row),
           p_policy_start_date = the (parse_field E (policy_start_date row)),
           p_policy_end_date = the (parse_field E (policy_end_date row)),
           p_policy_category_id = the l, p_company_collection_id = the c, p_user_id = the u\<rparr>)]
      else policies (db r))"
  using assms
  by (auto simp: policy_step_def Let_def resolver_defs find_None_iff
      split: if_splits option.splits sum.splits prod.splits)

lemma resolve_record_cases:
  assumes "resolve_record E row r = (a, r')"
  obtains
    (agent_throws) e where "getOrCreateRef E Agent (agent row) r = (Inl e, r')" "a = Inl e"
  | (lob_throws) e agentId r1 where
      "getOrCreateRef E Agent (agent row) r = (Inr agentId, r1)"
      "getOrCreateRef E LOB (category_name row) r1 = (Inl e, r')" "a = Inl e"
  | (carrier_throws) e agentId lobId r1 r2 where
      "getOrCreateRef E Agent (agent row) r = (Inr agentId, r1)"
      "getOrCreateRef E LOB (category_name row) r1 = (Inr lobId, r2)"
      "getOrCreateRef E Carrier (company_name row) r2 = (Inl e, r')" "a = Inl e"
  | (user_throws) e agentId lobId carrierId r1 r2 r3 where
      "getOrCreateRef E Agent (agent row) r = (Inr agentId, r1)"
      "getOrCreateRef E LOB (category_name row) r1 = (Inr lobId, r2)"
      "getOrCreateRef E Carrier (company_name row) r2 = (Inr carrierId, r3)"
      "getOrCreateUser E row r3 = (Inl e, r')" "a = Inl e"
  | (account_throws) e agentId lobId carrierId userId r1 r2 r3 r4 where
      "getOrCreateRef E Agent (agent row) r = (Inr agentId, r1)"
      "getOrCreateRef E LOB (category_name row) r1 = (Inr lobId, r2)"
      "getOrCreateRef E Carrier (company_name row) r2 = (Inr carrierId, r3)"
      "getOrCreateUser E row r3 = (Inr userId, r4)"
      "getOrCreateRef E UserAccount (account_name row) r4 = (Inl e, r')" "a = Inl e"
  | (policy) agentId lobId carrierId userId accountId r1 r2 r3 r4 r5 where
      "getOrCreateRef E Agent (agent row) r = (Inr agentId, r1)"
      "getOrCreateRef E LOB (category_name row) r1 = (Inr lobId, r2)"
      "getOrCreateRef E Carrier (company_name row) r2 = (Inr carrierId, r3)"
      "getOrCreateUser E row r3 = (Inr userId, r4)"
      "getOrCreateRef E UserAccount (account_name row) r4 = (Inr accountId, r5)"
      "policy_step E row lobId carrierId userId r5 = (a, r')"
  using assms
  unfolding resolve_record_def getOrCreateAgent_def getOrCreateLOB_def getOrCreateCarrier_def
    getOrCreateUserAccount_def
  by (elim bindE_cases) blast+


lemma resolve_record_throws_policies:
  assumes "resolve_record E row r = (Inl m, r')"
  shows "policies (db r') = policies (db r)"
  using assms
proof (cases rule: resolve_record_cases)
  case (agent_throws e)
  then show ?thesis by (simp add: getOrCreateRef_frame(1))
next
  case (lob_throws e agentId r1)
  then show ?thesis by (simp add: getOrCreateRef_frame(1))
next
  case (carrier_throws e agentId lobId r1 r2)
  then show ?thesis by (simp add: getOrCreateRef_frame(1))
next
  case (user_throws e agentId lobId carrierId r1 r2 r3)
  then show ?thesis by (simp add: getOrCreateRef_frame(1) getOrCreateUser_frame(1))
next
  case (account_throws e agentId lobId carrierId userId r1 r2 r3 r4)
  then show ?thesis by (simp add: getOrCreateRef_frame(1) getOrCreateUser_frame(1))
next
  case (policy agentId lobId carrierId userId accountId r1 r2 r3 r4 r5)
  then show ?thesis
    by (simp add: getOrCreateRef_frame(1) getOrCreateUser_frame(1) policy_step_throws)
qed

lemma resolve_record_returns_policies:
  assumes "resolve_record E row r = (Inr v, r')"
  shows "\<exists>i. policies (db r') =
     (if policy_condition E row (db r)
      then policies (db r) @
        [(i,
          \<lparr>p_policy_number = or_empty (policy_number row),
           p_policy_start_date = the (parse_field E (policy_start_date row)),
           p_policy_end_date = the (parse_field E (policy_end_date row)),
           p_policy_category_id = the (cache r' LOB (or_empty (category_name row))),
           p_company_collection_id = the (cache r' Carrier (or_empty (company_name row))),
           p_user_id = the (userCache r' (userKey row))\<rparr>)]
      else policies (db r))"
  using assms
proof (cases rule: resolve_record_cases)
  case (policy agentId lobId carrierId userId accountId r1 r2 r3 r4 r5)
  have pol: "policies (db r5) = policies (db r)"
    using policy(1-5) by (simp add: getOrCreateRef_frame(1) getOrCreateUser_frame(1))
  have ids: "(lobId \<noteq> None) = truthy (category_name row)"
    "(carrierId \<noteq> None) = truthy (company_name row)" "userId \<noteq> None"
    using getOrCreateRef_result(1) [OF policy(2)] getOrCreateRef_result(1) [OF policy(3)]
      getOrCreateUser_result(1) [OF policy(4)]
    by blast+
  have wanted: "(policy_wanted row lobId carrierId userId (parse_field E (policy_start_date row))
           (parse_field E (policy_end_date row)) \<and>
         (\<forall>doc\<in>set (policies (db r5)). p_policy_number (snd doc) \<noteq> or_empty (policy_number row)))
        = policy_condition E row (db r)"
    using ids(3) unfolding policy_wanted_def policy_condition_def pol ids(1,2) by blast
  have lob: "cache r' LOB (or_empty (category_name row)) = lobId" if "truthy (category_name row)"
  proof (cases lobId)
    case None
    with ids(1) that show ?thesis by simp
  next
    case (Some i)
    from getOrCreateRef_result(2) [OF policy(2) that] Some
    have "cache r2 LOB (or_empty (category_name row)) = Some i" by simp
    from getOrCreateRef_cache_mono [OF policy(3) this]
    have "cache r3 LOB (or_empty (category_name row)) = Some i" .
    then have "cache r4 LOB (or_empty (category_name row)) = Some i"
      using getOrCreateUser_frame(2) [OF policy(4)] by simp
    from getOrCreateRef_cache_mono [OF policy(5) this]
    have "cache r5 LOB (or_empty (category_name row)) = Some i" .
    then show ?thesis using policy_step_frame(1) [OF policy(6)] Some by simp
  qed
  have car: "cache r' Carrier (or_empty (company_name row)) = carrierId"
    if "truthy (company_name row)"
  proof (cases carrierId)
    case None
    with ids(2) that show ?thesis by simp
  next
    case (Some i)
    from getOrCreateRef_result(2) [OF policy(3) that] Some
    have "cache r3 Carrier (or_empty (company_name row)) = Some i" by simp
    then have "cache r4 Carrier (or_empty (company_name row)) = Some i"
      using getOrCreateUser_frame(2) [OF policy(4)] by simp
    from getOrCreateRef_cache_mono [OF policy(5) this]
    have "cache r5 Carrier (or_empty (company_name row)) = Some i" .
    then show ?thesis using policy_step_frame(1) [OF policy(6)] Some by simp
  qed
  have usr: "userCache r' (userKey row) = userId"
    using getOrCreateUser_result(2) [OF policy(4)] getOrCreateRef_frame(3) [OF policy(5)]
      policy_step_frame(2) [OF policy(6)]
    by simp
  show ?thesis
  proof (cases "policy_condition E row (db r)")
    case False
    with policy_step_returns [OF policy(6)] wanted pol show ?thesis by simp
  next
    case True
    then have "truthy (category_name row)" "truthy (company_name row)"
      by (simp_all add: policy_condition_def)
    with lob car usr policy_step_returns [OF policy(6)] wanted pol True
    show ?thesis by (intro exI [of _ "next_oid (db r5)"]) simp
  qed
qed simp_all

subsection \<open>When a resolver returns and when it throws\<close>

lemma calls_succeed_2:
  "calls_succeed E a 2 \<longleftrightarrow> fault E a = None \<and> fault E (Suc a) = None"
  by (auto simp: calls_succeed_def less_Suc_eq numeral_2_eq_2)

lemma calls_succeed_window:
  assumes "calls_succeed E a n" and "a \<le> b" and "b + m \<le> a + n"
  shows "calls_succeed E b m"
  unfolding calls_succeed_def
proof (intro allI impI)
  fix i assume "i < m"
  with assms(2,3) have "b - a + i < n" "a + (b - a + i) = b + i" by arith+
  with assms(1) show "fault E (b + i) = None" unfolding calls_succeed_def by metis
qed

lemma no_faults_calls_succeed: "no_faults E \<Longrightarrow> calls_succeed E a n"
  by (simp add: no_faults_def calls_succeed_def)

lemma getOrCreateRef_calls:
  assumes "getOrCreateRef E M label r = (a, r')"
  shows "length (calls r) \<le> length (calls r')" and "length (calls r') \<le> length (calls r) + 2"
  using assms
  by (auto simp: resolver_defs split: if_splits option.splits sum.splits prod.splits)

lemma getOrCreateUser_calls:
  assumes "getOrCreateUser E row r = (a, r')"
  shows "length (calls r) \<le> length (calls r')" and "length (calls r') \<le> length (calls r) + 2"
  using assms
  by (auto simp: resolver_defs split: if_splits option.splits sum.splits prod.splits)

lemma policy_step_calls:
  assumes "policy_step E row l c u r = (a, r')"
  shows "length (calls r) \<le> length (calls r')" and "length (calls r') \<le> length (calls r) + 2"
  using assms
  by (auto simp: policy_step_def Let_def resolver_defs
      split: if_splits option.splits sum.splits prod.splits)

lemma find_Some_ex: "(\<exists>x. find P xs = Some x) \<longleftrightarrow> (\<exists>x\<in>set xs. P x)"
  by (induction xs) auto

lemma find_SomeD: "find P xs = Some x \<Longrightarrow> x \<in> set xs \<and> P x"
  by (induction xs) (auto split: if_splits)

lemma getOrCreateRef_returns:
  assumes "calls_succeed E (length (calls r)) 2"
    and "\<not> truthy label \<or> cache r M (or_empty label) \<noteq> None \<or>
         (\<exists>doc\<in>set (refs (db r) M). snd doc = ref_setter E M (or_empty label)) \<or>
         ref_validation E M (or_empty label) = None"
  shows "\<exists>x r'. getOrCreateRef E M label r = (Inr x, r')"
proof (cases "\<not> truthy label \<or> cache r M (or_empty label) \<noteq> None")
  case True
  then show ?thesis by (auto simp: getOrCreateRef_def)
next
  case False
  then have t: "truthy label" and c: "cache r M (or_empty label) = None" by auto
  from assms(1) have f: "fault E (length (calls r)) = None" "fault E (Suc (length (calls r))) = None"
    by (simp_all add: calls_succeed_2)
  show ?thesis
  proof (cases "find (\<lambda>doc. snd doc = ref_setter E M (or_empty label)) (refs (db r) M)")
    case (Some d)
    with t c f show ?thesis by (simp add: resolver_defs)
  next
    case None
    then have "\<not> (\<exists>doc\<in>set (refs (db r) M). snd doc = ref_setter E M (or_empty label))"
      by (auto simp: find_None_iff)
    with assms(2) False have "ref_validation E M (or_empty label) = None" by blast
    with None t c f show ?thesis by (simp add: resolver_defs)
  qed
qed

lemma getOrCreateRef_Inr_resolvable:
  assumes "getOrCreateRef E M label r = (Inr x, r')"
  shows "\<not> truthy label \<or> cache r M (or_empty label) \<noteq> None \<or>
         (\<exists>doc\<in>set (refs (db r) M). snd doc = ref_setter E M (or_empty label)) \<or>
         ref_validation E M (or_empty label) = None"
  using assms
  by (auto simp: resolver_defs dest!: find_SomeD
      split: if_splits option.splits sum.splits prod.splits)

lemma ref_validation_other: "M \<noteq> UserAccount \<Longrightarrow> ref_validation E M name = None"
  by (simp add: ref_validation_def)

lemma account_resolvable_iff:
  "account_resolvable E row r \<longleftrightarrow>
     (\<not> truthy (account_name row) \<or> cache r UserAccount (or_empty (account_name row)) \<noteq> None \<or>
      (\<exists>doc\<in>set (refs (db r) UserAccount).
         snd doc = ref_setter E UserAccount (or_empty (account_name row))) \<or>
      ref_validation E UserAccount (or_empty (account_name row)) = None)"
  by (simp add: account_resolvable_def ref_setter_def ref_validation_def)

lemma User_validation_None:
  "(User_validation E fn d = None) = (trim E fn \<noteq> [] \<and> d \<noteq> None)"
  by (simp add: User_validation_def)

lemma policy_step_returns_unit:
  assumes "calls_succeed E (length (calls r)) 2"
  shows "\<exists>r'. policy_step E row l c u r = (Inr (), r')"
  using assms
  by (auto simp: calls_succeed_2 policy_step_def Let_def resolver_defs
      split: option.splits sum.splits prod.splits)

lemma getOrCreateUser_returns:
  assumes "calls_succeed E (length (calls r)) 2" and "person_resolvable E row r"
  shows "\<exists>x r'. getOrCreateUser E row r = (Inr x, r')"
proof (cases "userCache r (userKey row)")
  case (Some i)
  then show ?thesis by (simp add: getOrCreateUser_def)
next
  case None
  from assms(1) have f: "fault E (length (calls r)) = None" "fault E (Suc (length (calls r))) = None"
    by (simp_all add: calls_succeed_2)
  show ?thesis
  proof (cases "person_stored E row (db r)")
    case True
    then obtain d where "find (\<lambda>doc. u_firstname (snd doc) = trim E (or_empty (firstname row)) \<and>
          u_email (snd doc) = email_setter E (or_empty (email row))) (users (db r)) = Some d"
      using find_Some_ex [of "\<lambda>doc. u_firstname (snd doc) = trim E (or_empty (firstname row)) \<and>
          u_email (snd doc) = email_setter E (or_empty (email row))" "users (db r)"]
      by (auto simp: person_stored_def)
    with True None f show ?thesis
      by (simp add: person_stored_def resolver_defs)
  next
    case False
    with assms(2) None have
      "User_validation E (or_empty (firstname row)) (parse_field E (dob row)) = None"
      by (auto simp: person_resolvable_def User_validation_None)
    with None f show ?thesis
      by (auto simp: resolver_defs split: option.splits)
  qed
qed

lemma getOrCreateUser_throws:
  assumes "userCache r (userKey row) = None" and "\<not> person_stored E row (db r)"
    and "User_validation E (or_empty (firstname row)) (parse_field E (dob row)) = Some m"
  shows "\<exists>e r'. getOrCreateUser E row r = (Inl e, r')"
proof (cases "truthy (firstname row) \<and> truthy (email row)")
  case True
  with assms(2) have "find (\<lambda>doc. u_firstname (snd doc) = trim E (or_empty (firstname row)) \<and>
          u_email (snd doc) = email_setter E (or_empty (email row))) (users (db r)) = None"
    by (auto simp: person_stored_def find_None_iff)
  with True assms(1,3) show ?thesis
    by (cases "fault E (length (calls r))") (simp_all add: resolver_defs)
next
  case False
  with assms(1,3) show ?thesis by (auto simp: resolver_defs)
qed

lemma getOrCreateUser_Inr_resolvable:
  assumes "getOrCreateUser E row r = (Inr x, r')"
  shows "person_resolvable E row r"
proof (rule ccontr)
  assume n: "\<not> person_resolvable E row r"
  then have c: "userCache r (userKey row) = None" and s: "\<not> person_stored E row (db r)"
    and "User_validation E (or_empty (firstname row)) (parse_field E (dob row)) \<noteq> None"
    by (auto simp: person_resolvable_def User_validation_None)
  then obtain m where
    "User_validation E (or_empty (firstname row)) (parse_field E (dob row)) = Some m" by auto
  from getOrCreateUser_throws [OF c s this] assms show False by auto
qed


lemma getOrCreateRef_other:
  assumes "getOrCreateRef E M label r = (a, r')" and "M' \<noteq> M"
  shows "cache r' M' = cache r M'" and "refs (db r') M' = refs (db r) M'"
  using assms
  by (auto simp: resolver_defs split: if_splits option.splits sum.splits prod.splits)

lemma resolvable_frame:
  assumes "users (db r') = users (db r)" and "userCache r' = userCache r"
  shows "person_resolvable E row r' = person_resolvable E row r"
  using assms by (simp add: person_resolvable_def person_stored_def)

lemma account_frame:
  assumes "cache r' UserAccount = cache r UserAccount"
    and "refs (db r') UserAccount = refs (db r) UserAccount"
  shows "account_resolvable E row r' = account_resolvable E row r"
  using assms by (simp add: account_resolvable_def)

lemma resolve_record_returns:
  assumes cs: "calls_succeed E (length (calls r)) 12"
    and p: "person_resolvable E row r" and a: "account_resolvable E row r"
  shows "\<exists>r'. resolve_record E row r = (Inr (), r')"
proof -
  note w = calls_succeed_window [OF cs]
  have "\<exists>x r'. getOrCreateRef E Agent (agent row) r = (Inr x, r')"
    by (rule getOrCreateRef_returns [OF w]) (simp_all add: ref_validation_other)
  then obtain agentId r1 where 1: "getOrCreateRef E Agent (agent row) r = (Inr agentId, r1)"
    by blast
  note c1 = getOrCreateRef_calls [OF 1]
  have "\<exists>x r'. getOrCreateRef E LOB (category_name row) r1 = (Inr x, r')"
    using c1 by (intro getOrCreateRef_returns [OF w]) (simp_all add: ref_validation_other)
  then obtain lobId r2 where 2: "getOrCreateRef E LOB (category_name row) r1 = (Inr lobId, r2)"
    by blast
  note c2 = getOrCreateRef_calls [OF 2]
  have "\<exists>x r'. getOrCreateRef E Carrier (company_name row) r2 = (Inr x, r')"
    using c1 c2 by (intro getOrCreateRef_returns [OF w]) (simp_all add: ref_validation_other)
  then obtain carrierId r3 where
    3: "getOrCreateRef E Carrier (company_name row) r2 = (Inr carrierId, r3)" by blast
  note c3 = getOrCreateRef_calls [OF 3]
  have u3: "users (db r3) = users (db r)" "userCache r3 = userCache r"
    using getOrCreateRef_frame(2,3) [OF 1] getOrCreateRef_frame(2,3) [OF 2]
      getOrCreateRef_frame(2,3) [OF 3]
    by simp_all
  have p3: "person_resolvable E row r3"
    using p unfolding resolvable_frame [OF u3] .
  have "\<exists>x r'. getOrCreateUser E row r3 = (Inr x, r')"
    using c1 c2 c3 by (intro getOrCreateUser_returns [OF w p3]) simp_all
  then obtain userId r4 where 4: "getOrCreateUser E row r3 = (Inr userId, r4)" by blast
  note c4 = getOrCreateUser_calls [OF 4]
  have u4: "cache r4 UserAccount = cache r UserAccount"
    "refs (db r4) UserAccount = refs (db r) UserAccount"
    using getOrCreateRef_other [OF 1, of UserAccount] getOrCreateRef_other [OF 2, of UserAccount]
      getOrCreateRef_other [OF 3, of UserAccount] getOrCreateUser_frame(2,3) [OF 4]
    by simp_all
  have a4: "account_resolvable E row r4"
    using a unfolding account_frame [OF u4] .
  have "\<exists>x r'. getOrCreateRef E UserAccount (account_name row) r4 = (Inr x, r')"
    using c1 c2 c3 c4 a4 [unfolded account_resolvable_iff]
    by (intro getOrCreateRef_returns [OF w]) simp_all
  then obtain accountId r5 where
    5: "getOrCreateRef E UserAccount (account_name row) r4 = (Inr accountId, r5)" by blast
  note c5 = getOrCreateRef_calls [OF 5]
  have "\<exists>r'. policy_step E row lobId carrierId userId r5 = (Inr (), r')"
    using c1 c2 c3 c4 c5 by (intro policy_step_returns_unit [OF w]) simp_all
  then obtain r' where 6: "policy_step E row lobId carrierId userId r5 = (Inr (), r')" by blast
  have "resolve_record E row r = (Inr (), r')"
    unfolding resolve_record_def getOrCreateAgent_def getOrCreateLOB_def getOrCreateCarrier_def
      getOrCreateUserAccount_def
    by (simp add: bindE_def 1 2 3 4 5 6)
  then show ?thesis ..
qed

lemma resolve_record_Inr_resolvable:
  assumes "resolve_record E row r = (Inr v, r')"
  shows "person_resolvable E row r \<and> account_resolvable E row r"
  using assms
proof (cases rule: resolve_record_cases)
  case (policy agentId lobId carrierId userId accountId r1 r2 r3 r4 r5)
  have u3: "users (db r3) = users (db r)" "userCache r3 = userCache r"
    using getOrCreateRef_frame(2,3) [OF policy(1)] getOrCreateRef_frame(2,3) [OF policy(2)]
      getOrCreateRef_frame(2,3) [OF policy(3)]
    by simp_all
  have "person_resolvable E row r3" by (rule getOrCreateUser_Inr_resolvable [OF policy(4)])
  then have p: "person_resolvable E row r"
    unfolding resolvable_frame [OF u3] .
  have u4: "cache r4 UserAccount = cache r UserAccount"
    "refs (db r4) UserAccount = refs (db r) UserAccount"
    using getOrCreateRef_other [OF policy(1), of UserAccount]
      getOrCreateRef_other [OF policy(2), of UserAccount]
      getOrCreateRef_other [OF policy(3), of UserAccount] getOrCreateUser_frame(2,3) [OF policy(4)]
    by simp_all
  have "account_resolvable E row r4"
    unfolding account_resolvable_iff by (rule getOrCreateRef_Inr_resolvable [OF policy(5)])
  then have "account_resolvable E row r"
    unfolding account_frame [OF u4] .
  with p show ?thesis ..
qed simp_all


subsection \<open>The rule for creating a Policy\<close>

text \<open>
  C1 (as amended). When handling a record raises no exception, a Policy is created if
  and only if the rule holds (policy number, category name and company name present,
  both policy dates present and parsing, no Policy with that number in the store); the
  new Policy carries the number, the parsed dates and the resolved identities; in either
  case the record is counted as processed and no error is recorded. The agent and the
  account do not enter the rule. When handling the record raises, no Policy is created,
  the record is not counted as processed and the error counter goes up by one. Person
  resolution never yields "no identity": what it returns is an identity. Handling a
  record raises nothing only if its Person and its account resolve without a validation
  error, and, when none of the record's storage calls is rejected, whenever they do.
\<close>

theorem policy_created_by_rule:
  "(resolve_record E row (res s) = (Inr (), r') \<longrightarrow>
      res (process_record E n k row s) = r' \<and>
      processed (process_record E n k row s) = processed s + 1 \<and>
      errors (process_record E n k row s) = errors s \<and>
      errorsList (process_record E n k row s) = errorsList s \<and>
      (policies (db r') \<noteq> policies (db (res s))) = policy_condition E row (db (res s)) \<and>
      (\<exists>i. policies (db r') =
         (if policy_condition E row (db (res s))
          then policies (db (res s)) @
            [(i,
              \<lparr>p_policy_number = or_empty (policy_number row),
               p_policy_start_date = the (parse_field E (policy_start_date row)),
               p_policy_end_date = the (parse_field E (policy_end_date row)),
               p_policy_category_id = the (cache r' LOB (or_empty (category_name row))),
               p_company_collection_id = the (cache r' Carrier (or_empty (company_name row))),
               p_user_id = the (userCache r' (userKey row))\<rparr>)]
          else policies (db (res s)))) \<and>
      person_resolvable E row (res s) \<and> account_resolvable E row (res s)) \<and>
   (resolve_record E row (res s) = (Inl m, r'') \<longrightarrow>
      policies (db r'') = policies (db (res s)) \<and>
      processed (process_record E n k row s) = processed s \<and>
      errors (process_record E n k row s) = errors s + 1) \<and>
   (calls_succeed E (length (calls (res s))) 12 \<and> person_resolvable E row (res s) \<and>
    account_resolvable E row (res s) \<longrightarrow>
      (\<exists>r1. resolve_record E row (res s) = (Inr (), r1))) \<and>
   (getOrCreateUser E row r0 = (Inr x, r0') \<longrightarrow> x \<noteq> None)"
proof (intro conjI impI)
  assume ok: "resolve_record E row (res s) = (Inr (), r')"
  then show "res (process_record E n k row s) = r'"
    and "processed (process_record E n k row s) = processed s + 1"
    and "errors (process_record E n k row s) = errors s"
    and "errorsList (process_record E n k row s) = errorsList s"
    by (simp_all add: process_record_def Let_def)
  from resolve_record_returns_policies [OF ok]
  show ex: "\<exists>i. policies (db r') =
         (if policy_condition E row (db (res s))
          then policies (db (res s)) @
            [(i,
              \<lparr>p_policy_number = or_empty (policy_number row),
               p_policy_start_date = the (parse_field E (policy_start_date row)),
               p_policy_end_date = the (parse_field E (policy_end_date row)),
               p_policy_category_id = the (cache r' LOB (or_empty (category_name row))),
               p_company_collection_id = the (cache r' Carrier (or_empty (company_name row))),
               p_user_id = the (userCache r' (userKey row))\<rparr>)]
          else policies (db (res s)))" .
  then show "(policies (db r') \<noteq> policies (db (res s))) = policy_condition E row (db (res s))"
    by (cases "policy_condition E row (db (res s))") auto
  from resolve_record_Inr_resolvable [OF ok]
  show "person_resolvable E row (res s)" and "account_resolvable E row (res s)"
    by (rule conjunct1, rule conjunct2)
next
  assume bad: "resolve_record E row (res s) = (Inl m, r'')"
  then show "policies (db r'') = policies (db (res s))"
    by (rule resolve_record_throws_policies)
  from bad show "processed (process_record E n k row s) = processed s"
    and "errors (process_record E n k row s) = errors s + 1"
    by (simp_all add: process_record_def)
next
  assume h: "calls_succeed E (length (calls (res s))) 12 \<and> person_resolvable E row (res s) \<and>
    account_resolvable E row (res s)"
  show "\<exists>r1. resolve_record E row (res s) = (Inr (), r1)"
    by (rule resolve_record_returns [OF conjunct1 [OF h] conjunct1 [OF conjunct2 [OF h]]
          conjunct2 [OF conjunct2 [OF h]]])
next
  assume "getOrCreateUser E row r0 = (Inr x, r0')"
  then show "x \<noteq> None" by (rule getOrCreateUser_result(1))
qed

theorem policy_created_by_rule_witness:
  "resolve_record (env_with []) good_record (res (init_run empty_store)) =
     (Inr (), snd (resolve_record (env_with []) good_record (res (init_run empty_store)))) \<and>
   policy_condition (env_with []) good_record (db (res (init_run empty_store))) \<and>
   policies (db (snd (resolve_record (env_with []) good_record (res (init_run empty_store))))) \<noteq>
     policies (db (res (init_run empty_store))) \<and>
   calls_succeed (env_with []) (length (calls (res (init_run empty_store)))) 12 \<and>
   person_resolvable (env_with []) good_record (res (init_run empty_store)) \<and>
   account_resolvable (env_with []) good_record (res (init_run empty_store)) \<and>
   resolve_record (env_with []) spaces_firstname_record (res (init_run empty_store)) =
     (Inl ''User validation failed: firstname: Path `firstname` is required.'',
      snd (resolve_record (env_with []) spaces_firstname_record (res (init_run empty_store)))) \<and>
   policies (db (snd (resolve_record (env_with []) spaces_firstname_record
     (res (init_run empty_store))))) = policies (db (res (init_run empty_store))) \<and>
   errors (process_record (env_with []) 1 1 spaces_firstname_record (init_run empty_store)) =
     errors (init_run empty_store) + 1 \<and>
   getOrCreateUser (env_with []) good_record (res (init_run empty_store)) =
     (Inr (Some 0), snd (getOrCreateUser (env_with []) good_record (res (init_run empty_store))))"
proof -
  have "fst (resolve_record (env_with []) good_record (res (init_run empty_store))) = Inr ()"
    by (simp add: run_eval)
  then have h1: "resolve_record (env_with []) good_record (res (init_run empty_store)) =
     (Inr (), snd (resolve_record (env_with []) good_record (res (init_run empty_store))))"
    by (simp add: prod_eq_iff)
  have "fst (resolve_record (env_with []) spaces_firstname_record (res (init_run empty_store))) =
     Inl ''User validation failed: firstname: Path `firstname` is required.''"
    by (simp add: run_eval)
  then have h2: "resolve_record (env_with []) spaces_firstname_record (res (init_run empty_store)) =
     (Inl ''User validation failed: firstname: Path `firstname` is required.'',
      snd (resolve_record (env_with []) spaces_firstname_record (res (init_run empty_store))))"
    by (simp add: prod_eq_iff)
  have c: "policy_condition (env_with []) good_record (db (res (init_run empty_store)))"
    by (simp add: policy_condition_def run_eval)
  have cs: "calls_succeed (env_with []) (length (calls (res (init_run empty_store)))) 12"
    by (simp add: calls_succeed_def env_with_def)
  have pr: "person_resolvable (env_with []) good_record (res (init_run empty_store))"
    "account_resolvable (env_with []) good_record (res (init_run empty_store))"
    by (simp_all add: person_resolvable_def person_stored_def account_resolvable_def run_eval)
  have "fst (getOrCreateUser (env_with []) good_record (res (init_run empty_store))) =
     Inr (Some 0)"
    by (simp add: run_eval)
  then have h3: "getOrCreateUser (env_with []) good_record (res (init_run empty_store)) =
     (Inr (Some 0), snd (getOrCreateUser (env_with []) good_record (res (init_run empty_store))))"
    by (simp add: prod_eq_iff)
  from policy_created_by_rule [of "env_with []" good_record "init_run empty_store"
      "snd (resolve_record (env_with []) good_record (res (init_run empty_store)))" 1 1]
    policy_created_by_rule [of "env_with []" spaces_firstname_record "init_run empty_store" _ 1 1
      "''User validation failed: firstname: Path `firstname` is required.''"
      "snd (resolve_record (env_with []) spaces_firstname_record (res (init_run empty_store)))"]
    h1 h2 h3 c cs pr
  show ?thesis by blast
qed

text \<open>
  The claim as stated fails where the Person reference does not resolve: the record below
  has no first name, so \<open>User.create\<close> throws; no Policy is created, but the row is not a
  silent skip: it is recorded as an error and not counted as processed.
\<close>

theorem unresolved_person_is_an_error_not_a_skip:
  "fst (processCSV (env_with [no_firstname_record]) ''csv'' empty_store) =
     [Done True 0 1 1
        [\<lparr>e_row = 1,
          e_error = ''User validation failed: firstname: Path `firstname` is required.'',
          e_record = ''pn-001''\<rparr>]]"
  by (simp add: run_eval)



subsection \<open>Dates that do not parse\<close>




end
